theory Spec2Isabelle
  imports Main
begin

section \<open>Text, paths and exceptions\<close>

text \<open>
  A Python \<^verbatim>\<open>str\<close> is a sequence of Unicode code points; slicing and \<^verbatim>\<open>len\<close> count
  code points, not bytes. File contents, prompts and printed answers are therefore
  lists of code points. Filesystem paths and the fixed literals of the scripts are
  ASCII and are kept as HOL strings; \<open>str\<close> turns a literal into a Python string.
\<close>

type_synonym codepoint = nat
type_synonym pystr = "codepoint list"

definition str :: "string \<Rightarrow> pystr" where
  "str s = map of_char s"



text \<open>\<^verbatim>\<open>sep.join(parts)\<close>\<close>

fun join :: "'a list \<Rightarrow> 'a list list \<Rightarrow> 'a list" where
  "join sep [] = []"
| "join sep [x] = x"
| "join sep (x # y # ys) = x @ sep @ join sep (y # ys)"

text \<open>
  \<^verbatim>\<open>path.suffix\<close> of pathlib: the last component of the path, from its last dot on,
  when that dot is neither the first nor the last character of the component.
\<close>

definition name_of :: "string \<Rightarrow> string" where
  "name_of p = rev (takeWhile (\<lambda>c. c \<noteq> CHR ''/'') (rev p))"

definition suffix :: "string \<Rightarrow> string" where
  "suffix p =
     (let n = name_of p;
          ext = rev (takeWhile (\<lambda>c. c \<noteq> CHR ''.'') (rev n))
      in if CHR ''.'' \<in> set n \<and> ext \<noteq> [] \<and> length ext + 1 < length n
         then CHR ''.'' # ext else [])"

text \<open>\<^verbatim>\<open>str.lower\<close> on the ASCII range.\<close>

definition lower_char :: "char \<Rightarrow> char" where
  "lower_char c =
     (let n = (of_char c :: nat) in if 65 \<le> n \<and> n \<le> 90 then char_of (n + 32) else c)"

definition lower :: "string \<Rightarrow> string" where
  "lower s = map lower_char s"

text \<open>The exceptions the two scripts can meet.\<close>

datatype exn =
    OSError
  | Timeout
  | ConnectionError
  | HTTPError nat
  | JSONDecodeError
  | KeyError
  | ValueError
  | IndexError

section \<open>The HTTP services\<close>

text \<open>
  A service answers a request after some seconds with a status and a body, or refuses
  the connection. A body is JSON or not; what a JSON body holds depends on the
  endpoint. A server that never answers is outside this model.
\<close>

datatype 'b body = NotJson | Json 'b

datatype 'b server = Reply nat nat "'b body" | Refused

text \<open>
  \<^verbatim>\<open>requests.post(url, json=..., timeout=t)\<close>: with a timeout, an answer that takes
  longer raises \<^verbatim>\<open>Timeout\<close>; with no timeout argument the call waits for the answer.
\<close>

definition requests_post :: "nat option \<Rightarrow> 'b server \<Rightarrow> exn + nat \<times> 'b body" where
  "requests_post tmo srv =
     (case srv of
        Refused \<Rightarrow> Inl ConnectionError
      | Reply delay status b \<Rightarrow>
          (case tmo of
             None \<Rightarrow> Inr (status, b)
           | Some t \<Rightarrow> if t < delay then Inl Timeout else Inr (status, b)))"

text \<open>\<^verbatim>\<open>r.raise_for_status()\<close> raises for the statuses 400 to 599.\<close>

definition raise_for_status :: "nat \<Rightarrow> bool" where
  "raise_for_status status = (400 \<le> status \<and> status < 600)"

text \<open>
  The \<^verbatim>\<open>"embedding"\<close> field of an embeddings answer, when the object has one: a
  list of numbers, which numpy turns into a vector, or something numpy rejects with
  \<^verbatim>\<open>ValueError\<close>. A vector is a list over an arbitrary component type.
\<close>

datatype 'a emb_value = Numeric "'a list" | NonNumeric

type_synonym 'a emb_service = "pystr \<Rightarrow> 'a emb_value option server"

text \<open>The JSON payloads the scripts send.\<close>

datatype payload =
    EmbPayload string pystr bool
  | ChatPayload string "(string \<times> pystr) list" bool

datatype msg =
    Warning_no_embedding
  | Error_request exn
  | Error_response exn
  | Skipping string
  | Error_file string exn
  | Processed nat
  | Ingested nat string
  | No_files_ingested
  | Answer pystr

text \<open>What a run does to the outside world, in order.\<close>

datatype event =
    Post string payload "nat option"
  | ReadText string
  | WriteFile string
  | Print msg

definition embeddings_url :: string where
  "embeddings_url = ''http://127.0.0.1:11434/api/embeddings''"

definition chat_url :: string where
  "chat_url = ''http://127.0.0.1:11434/api/chat''"

definition model_name :: string where
  "model_name = ''harald-phi4''"

section \<open>ingest_local.py\<close>

text \<open>
  \<^verbatim>\<open>embed\<close> of the ingest script: every failure is printed and becomes \<^verbatim>\<open>None\<close>.
  The JSON error of \<^verbatim>\<open>r.json()\<close> is a \<^verbatim>\<open>RequestException\<close> and is caught by the
  first handler.
\<close>

definition embed :: "'a emb_service \<Rightarrow> pystr \<Rightarrow> event list \<times> 'a list option" where
  "embed svc text =
     (let post = Post embeddings_url (EmbPayload model_name text False) (Some 600) in
      case requests_post (Some 600) (svc text) of
        Inl e \<Rightarrow> ([post, Print (Error_request e)], None)
      | Inr (status, b) \<Rightarrow>
          if raise_for_status status
          then ([post, Print (Error_request (HTTPError status))], None)
          else (case b of
                  NotJson \<Rightarrow> ([post, Print (Error_request JSONDecodeError)], None)
                | Json None \<Rightarrow> ([post, Print Warning_no_embedding], None)
                | Json (Some NonNumeric) \<Rightarrow> ([post, Print (Error_response ValueError)], None)
                | Json (Some (Numeric v)) \<Rightarrow> ([post], Some v)))"

text \<open>
  One entry of \<^verbatim>\<open>ROOT.rglob("*")\<close>, as the run meets it: its path; what
  \<^verbatim>\<open>path.stat().st_size\<close> gives in the filter (a dangling link raises); what
  \<^verbatim>\<open>path.read_text(encoding="utf-8", errors="ignore")\<close> gives (a directory or an
  unreadable file raises; undecodable bytes are dropped, so decoding itself never
  raises); and what \<^verbatim>\<open>path.stat().st_size\<close> gives when it is called again for the
  record, after the embedding request, which may have taken up to 600 seconds: the
  file may have grown or be gone by then.
\<close>

record entry =
  path :: string
  st_size :: "exn + nat"
  read_text :: "exn + pystr"
  st_size_again :: "exn + nat"

record doc_record =
  rec_path :: string
  rec_bytes :: nat

record 'a ingest_state =
  docs :: "'a list list"
  meta :: "doc_record list"
  file_count :: nat
  trace :: "event list"

definition init_state :: "'a ingest_state" where
  "init_state = \<lparr>docs = [], meta = [], file_count = 0, trace = []\<rparr>"

definition chunk :: "pystr \<Rightarrow> pystr" where
  "chunk t = take 800 t"

text \<open>
  The body of the \<^verbatim>\<open>try\<close> for one file. Any exception in it is caught and printed.
  The vector is appended before the record is built, so a second \<^verbatim>\<open>stat\<close> that
  raises leaves the vector without a record.
\<close>

definition process_file :: "'a emb_service \<Rightarrow> entry \<Rightarrow> 'a ingest_state \<Rightarrow> 'a ingest_state" where
  "process_file svc e s =
     (case read_text e of
        Inl x \<Rightarrow> s\<lparr>trace := trace s @ [ReadText (path e), Print (Error_file (path e) x)]\<rparr>
      | Inr t \<Rightarrow>
          (case embed svc (chunk t) of
             (evs, None) \<Rightarrow>
               s\<lparr>trace := trace s @ ReadText (path e) # evs @ [Print (Skipping (path e))]\<rparr>
           | (evs, Some v) \<Rightarrow>
               (case st_size_again e of
                  Inl x \<Rightarrow>
                    s\<lparr>docs := docs s @ [v],
                      trace := trace s @ ReadText (path e) # evs @ [Print (Error_file (path e) x)]\<rparr>
                | Inr n \<Rightarrow>
                    s\<lparr>docs := docs s @ [v],
                      meta := meta s @ [\<lparr>rec_path = path e, rec_bytes = n\<rparr>],
                      file_count := file_count s + 1,
                      trace := trace s @ ReadText (path e) # evs @
                        (if (file_count s + 1) mod 10 = 0
                         then [Print (Processed (file_count s + 1))] else [])\<rparr>)))"

text \<open>
  The loop over the tree. The filter's \<^verbatim>\<open>path.stat()\<close> is evaluated only when the
  suffix matches, and outside the \<^verbatim>\<open>try\<close>: when it raises, the run ends there.
\<close>

definition wanted_suffix :: "string \<Rightarrow> bool" where
  "wanted_suffix p = (lower (suffix p) \<in> {''.md'', ''.json''})"

fun ingest_loop :: "'a emb_service \<Rightarrow> entry list \<Rightarrow> 'a ingest_state \<Rightarrow> exn option \<times> 'a ingest_state" where
  "ingest_loop svc [] s = (None, s)"
| "ingest_loop svc (e # es) s =
     (if wanted_suffix (path e) then
        (case st_size e of
           Inl x \<Rightarrow> (Some x, s)
         | Inr n \<Rightarrow> if 0 < n then ingest_loop svc es (process_file svc e s)
                    else ingest_loop svc es s)
      else ingest_loop svc es s)"

text \<open>
  The end of the script. \<^verbatim>\<open>np.stack\<close> raises \<^verbatim>\<open>ValueError\<close> unless all vectors have
  one length. \<open>written\<close> is what the two output files hold after the run, when
  they were written.
\<close>

record 'a run =
  events :: "event list"
  crashed :: "exn option"
  written :: "('a list list \<times> doc_record list) option"

definition data_dir :: "string \<Rightarrow> string" where
  "data_dir root = root @ ''/data''"

definition index_path :: "string \<Rightarrow> string" where
  "index_path root = data_dir root @ ''/repo.index''"

definition meta_path :: "string \<Rightarrow> string" where
  "meta_path root = data_dir root @ ''/repo.meta.json''"

definition uniform :: "'a list list \<Rightarrow> bool" where
  "uniform vs = list_all (\<lambda>v. length v = length (hd vs)) vs"

definition ingest :: "string \<Rightarrow> 'a emb_service \<Rightarrow> entry list \<Rightarrow> 'a run" where
  "ingest root svc tree =
     (case ingest_loop svc tree init_state of
        (Some x, s) \<Rightarrow> \<lparr>events = trace s, crashed = Some x, written = None\<rparr>
      | (None, s) \<Rightarrow>
          if docs s \<noteq> [] then
            (if uniform (docs s) then
               \<lparr>events = trace s @ [WriteFile (index_path root), WriteFile (meta_path root),
                           Print (Ingested (length (meta s)) (index_path root))],
                crashed = None, written = Some (docs s, meta s)\<rparr>
             else \<lparr>events = trace s, crashed = Some ValueError, written = None\<rparr>)
          else \<lparr>events = trace s @ [Print No_files_ingested], crashed = None, written = None\<rparr>)"

subsection \<open>Describing a run\<close>

text \<open>
  What the \<^verbatim>\<open>try\<close> body yields for an entry: the vector of its first 800 characters,
  or nothing when the read or the embedding failed.
\<close>

definition embeds :: "'a emb_service \<Rightarrow> entry \<Rightarrow> 'a list option" where
  "embeds svc e = (case read_text e of Inl x \<Rightarrow> None | Inr t \<Rightarrow> snd (embed svc (chunk t)))"

text \<open>The filter of the loop: a wanted suffix and a size that is read and positive.\<close>

definition eligible :: "entry \<Rightarrow> bool" where
  "eligible e = (wanted_suffix (path e) \<and> (case st_size e of Inl x \<Rightarrow> False | Inr n \<Rightarrow> 0 < n))"

definition stat_fails :: "entry \<Rightarrow> bool" where
  "stat_fails e = (wanted_suffix (path e) \<and> isl (st_size e))"

definition size_of :: "entry \<Rightarrow> nat" where
  "size_of e = (case st_size_again e of Inl x \<Rightarrow> 0 | Inr n \<Rightarrow> n)"

definition record_of :: "entry \<Rightarrow> doc_record" where
  "record_of e = \<lparr>rec_path = path e, rec_bytes = size_of e\<rparr>"

text \<open>
  The entries for which the loop appends a vector, and those among them for which it
  also appends a record.
\<close>

definition embedded :: "'a emb_service \<Rightarrow> entry list \<Rightarrow> entry list" where
  "embedded svc tree = filter (\<lambda>e. eligible e \<and> embeds svc e \<noteq> None) tree"

definition recorded :: "'a emb_service \<Rightarrow> entry list \<Rightarrow> entry list" where
  "recorded svc tree =
     filter (\<lambda>e. eligible e \<and> embeds svc e \<noteq> None \<and> \<not> isl (st_size_again e)) tree"

text \<open>The entries the loop reaches: those before the first one whose \<^verbatim>\<open>stat\<close> raises.\<close>

definition scanned :: "entry list \<Rightarrow> entry list" where
  "scanned tree = takeWhile (\<lambda>e. \<not> stat_fails e) tree"




definition read_paths :: "event list \<Rightarrow> string list" where
  "read_paths evs = concat (map (\<lambda>ev. case ev of ReadText p \<Rightarrow> [p] | _ \<Rightarrow> []) evs)"

definition prompts :: "event list \<Rightarrow> pystr list" where
  "prompts evs =
     concat (map (\<lambda>ev. case ev of Post u (EmbPayload m t b) tmo \<Rightarrow> [t] | _ \<Rightarrow> []) evs)"

definition timeouts :: "event list \<Rightarrow> nat option list" where
  "timeouts evs = concat (map (\<lambda>ev. case ev of Post u p tmo \<Rightarrow> [tmo] | _ \<Rightarrow> []) evs)"

subsection \<open>The files a run leaves behind\<close>













section \<open>ask_local.py\<close>

text \<open>\<^verbatim>\<open>" ".join(sys.argv[1:]) or "List all entity names."\<close>\<close>

definition default_question :: pystr where
  "default_question = str ''List all entity names.''"

definition question :: "pystr list \<Rightarrow> pystr" where
  "question argv =
     (let q = join (str '' '') (drop 1 argv) in if q = [] then default_question else q)"

text \<open>
  \<^verbatim>\<open>embed\<close> of the query script: no status check and no handler, so every failure
  is an exception of the run.
\<close>

definition ask_embed :: "'a emb_service \<Rightarrow> pystr \<Rightarrow> exn + 'a list" where
  "ask_embed svc prompt =
     (case requests_post (Some 600) (svc prompt) of
        Inl e \<Rightarrow> Inl e
      | Inr (status, b) \<Rightarrow>
          (case b of
             NotJson \<Rightarrow> Inl JSONDecodeError
           | Json None \<Rightarrow> Inl KeyError
           | Json (Some NonNumeric) \<Rightarrow> Inl ValueError
           | Json (Some (Numeric v)) \<Rightarrow> Inr v))"

text \<open>
  Modelled from the spec: \<^verbatim>\<open>index.search(q, k)\<close> of the flat index is the vector-index
  library's, not the repository's. It gives the positions of the rows nearest to
  \<open>q\<close>, nearest first, always \<open>k\<close> of them; when the index holds fewer than \<open>k\<close>
  rows the places left carry the library's sentinel \<open>-1\<close>. \<open>d\<close> is the distance;
  among rows at the same distance the earlier one comes first here. The check that
  \<open>q\<close> has the dimension of the index is left out.
\<close>

definition faiss_search :: "('a list \<Rightarrow> 'a list \<Rightarrow> 'd::linorder) \<Rightarrow> 'a list list \<Rightarrow> 'a list \<Rightarrow> nat \<Rightarrow> int list" where
  "faiss_search d rows q k =
     (let ranked = map snd (sort_key fst (zip (map (d q) rows) [0..<length rows]));
          hits = take k ranked
      in map int hits @ replicate (k - length hits) (- 1))"

text \<open>\<^verbatim>\<open>xs[i]\<close> of a Python list: a negative index counts from the end.\<close>

definition py_index :: "'x list \<Rightarrow> int \<Rightarrow> exn + 'x" where
  "py_index xs i =
     (if 0 \<le> i \<and> i < int (length xs) then Inr (xs ! nat i)
      else if i < 0 \<and> - int (length xs) \<le> i then Inr (xs ! nat (int (length xs) + i))
      else Inl IndexError)"

text \<open>
  The generator of the context: for each position, the record, then the first 800
  characters of that file as it is on disk now. The first exception ends it.
\<close>

fun read_blocks :: "(string \<Rightarrow> exn + pystr) \<Rightarrow> doc_record list \<Rightarrow> int list \<Rightarrow> event list \<times> (exn + pystr list)" where
  "read_blocks disk m [] = ([], Inr [])"
| "read_blocks disk m (i # ls) =
     (case py_index m i of
        Inl x \<Rightarrow> ([], Inl x)
      | Inr r \<Rightarrow>
          (case disk (rec_path r) of
             Inl x \<Rightarrow> ([ReadText (rec_path r)], Inl x)
           | Inr t \<Rightarrow>
               (case read_blocks disk m ls of
                  (evs, Inl x) \<Rightarrow> (ReadText (rec_path r) # evs, Inl x)
                | (evs, Inr bs) \<Rightarrow> (ReadText (rec_path r) # evs, Inr (chunk t # bs)))))"

text \<open>
  What a query run starts from: the loaded index and metadata, the files on disk, the
  two services and the distance of the index. A chat answer is a JSON object that may
  hold a \<^verbatim>\<open>"message"\<close>, which may hold a \<^verbatim>\<open>"content"\<close>.
\<close>

record ('a, 'd) ask_env =
  index_rows :: "'a list list"
  meta_list :: "doc_record list"
  disk :: "string \<Rightarrow> exn + pystr"
  emb_service :: "'a emb_service"
  chat_service :: "payload \<Rightarrow> pystr option option server"
  dist :: "'a list \<Rightarrow> 'a list \<Rightarrow> 'd"

definition blank_line :: pystr where
  "blank_line = [10, 10]"

definition chat_payload :: "pystr list \<Rightarrow> pystr \<Rightarrow> payload" where
  "chat_payload blocks q =
     ChatPayload model_name [(''user'', join blank_line blocks @ blank_line @ q)] False"

definition ask :: "('a, 'd::linorder) ask_env \<Rightarrow> pystr list \<Rightarrow> event list \<times> exn option" where
  "ask env argv =
     (let q = question argv;
          post_e = Post embeddings_url (EmbPayload model_name q False) (Some 600)
      in case ask_embed (emb_service env) q of
           Inl x \<Rightarrow> ([post_e], Some x)
         | Inr q_vec \<Rightarrow>
             (case read_blocks (disk env) (meta_list env)
                     (faiss_search (dist env) (index_rows env) q_vec 3) of
                (evs, Inl x) \<Rightarrow> (post_e # evs, Some x)
              | (evs, Inr blocks) \<Rightarrow>
                  (let pl = chat_payload blocks q;
                       sent = post_e # evs @ [Post chat_url pl None]
                   in case requests_post None (chat_service env pl) of
                        Inl x \<Rightarrow> (sent, Some x)
                      | Inr (status, b) \<Rightarrow>
                          (case b of
                             NotJson \<Rightarrow> (sent, Some JSONDecodeError)
                           | Json None \<Rightarrow> (sent, Some KeyError)
                           | Json (Some None) \<Rightarrow> (sent, Some KeyError)
                           | Json (Some (Some c)) \<Rightarrow> (sent @ [Print (Answer c)], None)))))"

section \<open>Example inputs\<close>

text \<open>
  A service that embeds every prompt (as the one-component vector of its length), and
  the tree of the specification's scenario: \<^verbatim>\<open>a.md\<close> of 500 bytes, \<^verbatim>\<open>b.json\<close> of 10,
  \<^verbatim>\<open>c.txt\<close> of 500, and the output directory, which the script creates before it
  scans.
\<close>

definition demo_service :: "nat emb_service" where
  "demo_service t = Reply 0 200 (Json (Some (Numeric [length t])))"

definition demo_tree :: "entry list" where
  "demo_tree =
     [\<lparr>path = ''/r/a.md'', st_size = Inr 500, read_text = Inr (replicate 500 97),
       st_size_again = Inr 500\<rparr>,
      \<lparr>path = ''/r/b.json'', st_size = Inr 10, read_text = Inr (replicate 10 98),
       st_size_again = Inr 10\<rparr>,
      \<lparr>path = ''/r/c.txt'', st_size = Inr 500, read_text = Inr (replicate 500 97),
       st_size_again = Inr 500\<rparr>,
      \<lparr>path = ''/r/data'', st_size = Inr 4096, read_text = Inl OSError,
       st_size_again = Inr 4096\<rparr>]"

text \<open>A dangling symbolic link with a wanted suffix.\<close>

definition dangling :: entry where
  "dangling =
     \<lparr>path = ''/r/link.md'', st_size = Inl OSError, read_text = Inl OSError,
      st_size_again = Inl OSError\<rparr>"




text \<open>
  A file that passes the filter with 500 bytes and is gone when the record is built.
\<close>

definition vanishing :: entry where
  "vanishing =
     \<lparr>path = ''/r/a.md'', st_size = Inr 500, read_text = Inr (replicate 500 97),
      st_size_again = Inl OSError\<rparr>"


text \<open>
  An example for the query: the corpus the example ingest run wrote, the two files
  still on disk, and a chat service that answers after \<open>delay\<close> seconds.
\<close>

definition demo_disk :: "string \<Rightarrow> exn + pystr" where
  "demo_disk p =
     (if p = ''/r/a.md'' then Inr (replicate 500 97)
      else if p = ''/r/b.json'' then Inr (replicate 10 98) else Inl OSError)"

definition demo_dist :: "nat list \<Rightarrow> nat list \<Rightarrow> nat" where
  "demo_dist q r = (if hd q \<le> hd r then hd r - hd q else hd q - hd r)"

definition demo_env :: "nat \<Rightarrow> (nat, nat) ask_env" where
  "demo_env delay =
     \<lparr>index_rows = [[500], [10]],
      meta_list = [\<lparr>rec_path = ''/r/a.md'', rec_bytes = 500\<rparr>,
                   \<lparr>rec_path = ''/r/b.json'', rec_bytes = 10\<rparr>],
      disk = demo_disk,
      emb_service = demo_service,
      chat_service = (\<lambda>pl. Reply delay 200 (Json (Some (Some (str ''Harald''))))),
      dist = demo_dist\<rparr>"

text \<open>
  The corpus the run over the vanishing file wrote: one row and no record.
\<close>

definition lone_env :: "(nat, nat) ask_env" where
  "lone_env = (demo_env 0)\<lparr>index_rows := [[500]], meta_list := []\<rparr>"

section \<open>Properties of the ingest run\<close>

subsection \<open>Events, vectors and records of the loop\<close>

lemma read_paths_append [simp]: "read_paths (a @ b) = read_paths a @ read_paths b"
  by (simp add: read_paths_def)

lemma prompts_append [simp]: "prompts (a @ b) = prompts a @ prompts b"
  by (simp add: prompts_def)

lemma timeouts_append [simp]: "timeouts (a @ b) = timeouts a @ timeouts b"
  by (simp add: timeouts_def)

lemma read_paths_Cons [simp]:
  "read_paths (ev # evs) = (case ev of ReadText p \<Rightarrow> [p] | _ \<Rightarrow> []) @ read_paths evs"
  "read_paths [] = []"
  by (simp_all add: read_paths_def)

lemma prompts_Cons [simp]:
  "prompts (ev # evs) = (case ev of Post u (EmbPayload m t b) tmo \<Rightarrow> [t] | _ \<Rightarrow> []) @ prompts evs"
  "prompts [] = []"
  by (simp_all add: prompts_def)

lemma timeouts_Cons [simp]:
  "timeouts (ev # evs) = (case ev of Post u p tmo \<Rightarrow> [tmo] | _ \<Rightarrow> []) @ timeouts evs"
  "timeouts [] = []"
  by (simp_all add: timeouts_def)



lemma embed_timeouts: "embed svc t = (evs, r) \<Longrightarrow> timeouts evs = [Some 600]"
  by (auto simp: embed_def Let_def
      split: sum.splits prod.splits body.splits option.splits emb_value.splits if_splits)

lemma process_file_docs:
  "docs (process_file svc e s) = docs s @ (case embeds svc e of None \<Rightarrow> [] | Some v \<Rightarrow> [v])"
  by (simp add: process_file_def embeds_def split: sum.splits prod.splits option.splits)

lemma process_file_meta:
  "meta (process_file svc e s) =
   meta s @ (if embeds svc e \<noteq> None \<and> \<not> isl (st_size_again e) then [record_of e] else [])"
  by (auto simp: process_file_def embeds_def record_of_def size_of_def
      split: sum.splits prod.splits option.splits)



lemma process_file_timeouts:
  "timeouts (trace (process_file svc e s)) =
   timeouts (trace s) @ (case read_text e of Inl x \<Rightarrow> [] | Inr t \<Rightarrow> [Some 600])"
  by (auto simp: process_file_def embed_timeouts split: sum.splits prod.splits option.splits)

lemma eligible_iff: "eligible e \<longleftrightarrow> wanted_suffix (path e) \<and> (\<exists>n. st_size e = Inr n \<and> 0 < n)"
  by (auto simp: eligible_def split: sum.splits)

lemma loop_docs:
  "docs (snd (ingest_loop svc tree s)) =
   docs s @ map (\<lambda>e. the (embeds svc e)) (embedded svc (scanned tree))"
proof (induction tree arbitrary: s)
  case Nil
  show ?case by (simp add: embedded_def scanned_def)
next
  case (Cons e es)
  show ?case
  proof (cases "wanted_suffix (path e)")
    case False
    then show ?thesis
      using Cons.IH [of s] by (simp add: embedded_def scanned_def stat_fails_def eligible_def)
  next
    case True
    show ?thesis
    proof (cases "st_size e")
      case (Inl x)
      with True show ?thesis by (simp add: embedded_def scanned_def stat_fails_def)
    next
      case (Inr n)
      with True show ?thesis
        using Cons.IH [of s] Cons.IH [of "process_file svc e s"]
        by (cases "embeds svc e")
           (simp_all add: embedded_def scanned_def stat_fails_def eligible_def process_file_docs)
    qed
  qed
qed

lemma loop_meta:
  "meta (snd (ingest_loop svc tree s)) = meta s @ map record_of (recorded svc (scanned tree))"
proof (induction tree arbitrary: s)
  case Nil
  show ?case by (simp add: recorded_def scanned_def)
next
  case (Cons e es)
  show ?case
  proof (cases "wanted_suffix (path e)")
    case False
    then show ?thesis
      using Cons.IH [of s] by (simp add: recorded_def scanned_def stat_fails_def eligible_def)
  next
    case True
    show ?thesis
    proof (cases "st_size e")
      case (Inl x)
      with True show ?thesis by (simp add: recorded_def scanned_def stat_fails_def)
    next
      case (Inr n)
      with True show ?thesis
        using Cons.IH [of s] Cons.IH [of "process_file svc e s"]
        by (simp add: recorded_def scanned_def stat_fails_def eligible_def process_file_meta)
    qed
  qed
qed

lemma loop_crash:
  "fst (ingest_loop svc tree s) =
     (case dropWhile (\<lambda>e. \<not> stat_fails e) tree of
        [] \<Rightarrow> None
      | e # es \<Rightarrow> (case st_size e of Inl x \<Rightarrow> Some x | Inr n \<Rightarrow> None))"
  by (induction tree arbitrary: s) (auto simp: stat_fails_def split: sum.splits)

lemma loop_completes: "fst (ingest_loop svc tree s) = None \<longleftrightarrow> scanned tree = tree"
  by (induction tree arbitrary: s) (auto simp: stat_fails_def scanned_def split: sum.splits)



lemma loop_timeouts:
  "list_all (\<lambda>t. t = Some 600) (timeouts (trace s)) \<Longrightarrow>
   list_all (\<lambda>t. t = Some 600) (timeouts (trace (snd (ingest_loop svc tree s))))"
proof (induction tree arbitrary: s)
  case Nil
  then show ?case by simp
next
  case (Cons e es)
  have "list_all (\<lambda>t. t = Some 600) (timeouts (trace (process_file svc e s)))"
    using Cons.prems by (simp add: process_file_timeouts split: sum.splits)
  then show ?case
    using Cons.IH [of s] Cons.IH [of "process_file svc e s"] Cons.prems
    by (auto split: sum.splits)
qed

subsection \<open>What a run writes\<close>

lemma ingest_written:
  "written (ingest root svc tree) = Some (rows, m) \<Longrightarrow>
   scanned tree = tree \<and> rows \<noteq> [] \<and>
   rows = map (\<lambda>e. the (embeds svc e)) (embedded svc tree) \<and>
   m = map record_of (recorded svc tree)"
proof -
  assume w: "written (ingest root svc tree) = Some (rows, m)"
  obtain c s where cs: "ingest_loop svc tree init_state = (c, s)"
    by (cases "ingest_loop svc tree init_state")
  from w cs have c: "c = None" and r: "rows = docs s" "m = meta s" "rows \<noteq> []"
    by (auto simp: ingest_def split: option.splits if_splits)
  from c cs have sc: "scanned tree = tree"
    using loop_completes [of svc tree init_state] by simp
  have "docs s = map (\<lambda>e. the (embeds svc e)) (embedded svc (scanned tree))"
    using loop_docs [of svc tree init_state] cs by (simp add: init_state_def)
  moreover have "meta s = map record_of (recorded svc (scanned tree))"
    using loop_meta [of svc tree init_state] cs by (simp add: init_state_def)
  ultimately show ?thesis using r sc by simp
qed

lemma embedded_embeds:
  assumes "i < length (embedded svc tree)"
  shows "embeds svc (embedded svc tree ! i) = Some (map (\<lambda>e. the (embeds svc e)) (embedded svc tree) ! i)"
proof -
  from assms have "embedded svc tree ! i \<in> set (embedded svc tree)" by simp
  then have "embeds svc (embedded svc tree ! i) \<noteq> None" by (simp add: embedded_def)
  then obtain v where "embeds svc (embedded svc tree ! i) = Some v" by blast
  with assms show ?thesis by simp
qed


lemma recorded_embedded:
  "list_all (\<lambda>e. \<not> isl (st_size_again e)) (embedded svc tree) \<Longrightarrow>
   recorded svc tree = embedded svc tree"
  by (induction tree) (auto simp: recorded_def embedded_def)

lemma demo_suffixes:
  "wanted_suffix ''/r/a.md''" "wanted_suffix ''/r/b.json''" "\<not> wanted_suffix ''/r/c.txt''"
  "\<not> wanted_suffix ''/r/data''"
  by code_simp+



subsection \<open>The index and the metadata\<close>

text \<open>
  When the second \<^verbatim>\<open>stat\<close> raises for no embedded file, the two files are parallel: as
  many rows as records, one for each entry that passed the filter and was embedded, in
  the order of the scan, and record \<open>i\<close> carries the path of the entry whose vector is
  row \<open>i\<close>.
\<close>

lemma ingest_parallel_when_stat_repeats:
  assumes "written (ingest root svc tree) = Some (rows, m)"
    and "list_all (\<lambda>e. \<not> isl (st_size_again e)) (embedded svc tree)"
  shows "rows \<noteq> [] \<and> length rows = length m \<and> length m = length (embedded svc tree) \<and>
         (\<forall>i<length m. rec_path (m ! i) = path (embedded svc tree ! i) \<and>
                        embeds svc (embedded svc tree ! i) = Some (rows ! i))"
proof -
  have r: "rows = map (\<lambda>e. the (embeds svc e)) (embedded svc tree)"
    using ingest_written [OF assms(1)] by blast
  have m: "m = map record_of (embedded svc tree)"
    using ingest_written [OF assms(1)] recorded_embedded [OF assms(2)] by simp
  have ne: "rows \<noteq> []"
    using ingest_written [OF assms(1)] by blast
  have len: "length rows = length m" "length m = length (embedded svc tree)"
    by (simp_all add: r m)
  have "rec_path (m ! i) = path (embedded svc tree ! i) \<and>
        embeds svc (embedded svc tree ! i) = Some (rows ! i)" if "i < length m" for i
  proof -
    from that have i: "i < length (embedded svc tree)" by (simp add: m)
    then have "rec_path (m ! i) = path (embedded svc tree ! i)"
      by (simp add: m record_of_def)
    moreover have "embeds svc (embedded svc tree ! i) = Some (rows ! i)"
      unfolding r by (rule embedded_embeds [OF i])
    ultimately show ?thesis by simp
  qed
  with ne len show ?thesis by blast
qed

lemma vanishing_written:
  "written (ingest ''/r'' demo_service [vanishing]) = Some ([[500]], [])"
  by (simp add: ingest_def vanishing_def demo_service_def demo_suffixes init_state_def
      process_file_def embed_def requests_post_def raise_for_status_def chunk_def uniform_def)

text \<open>
  Claim C1, evaluated where it fails. \<^verbatim>\<open>a.md\<close> passes the filter and is embedded, and
  is gone when \<^verbatim>\<open>path.stat()\<close> is called again for its record: the vector is already
  appended, the exception is caught by the \<^verbatim>\<open>try\<close>, and the run writes an index of one
  row beside a metadata list of no record. With \<^verbatim>\<open>b.json\<close> after it, row 0 is the
  vector of \<^verbatim>\<open>a.md\<close> and record 0 is that of \<^verbatim>\<open>b.json\<close>.
\<close>
theorem ingest_vector_without_record:
  "written (ingest ''/r'' demo_service [vanishing]) = Some ([[500]], [])
   \<and> written (ingest ''/r'' demo_service (vanishing # tl demo_tree)) =
       Some ([[500], [10]], [\<lparr>rec_path = ''/r/b.json'', rec_bytes = 10\<rparr>])"
  by (simp add: ingest_def vanishing_def demo_tree_def demo_service_def demo_suffixes
      init_state_def process_file_def embed_def requests_post_def raise_for_status_def
      chunk_def uniform_def)

subsection \<open>The filter\<close>










subsection \<open>Failures of single files\<close>

lemma link_suffix: "wanted_suffix ''/r/link.md''"
  by code_simp

text \<open>
  Claim C7, evaluated where it fails. A dangling link named \<^verbatim>\<open>link.md\<close> comes first in
  the scan. Its suffix passes the filter, the \<^verbatim>\<open>stat\<close> of the filter raises outside the
  \<^verbatim>\<open>try\<close>, and the run ends there: nothing is printed, the two good files after it are
  not ingested, and nothing is written.
\<close>
theorem ingest_stat_failure_is_fatal:
  "ingest ''/r'' demo_service (dangling # demo_tree) =
     \<lparr>events = [], crashed = Some OSError, written = None\<rparr>"
  by (simp add: ingest_def dangling_def link_suffix init_state_def)

text \<open>
  What does hold: when no \<^verbatim>\<open>stat\<close> of the filter raises, failures inside the \<^verbatim>\<open>try\<close>
  only skip their file, the run crashes at most in \<^verbatim>\<open>np.stack\<close>, and a run that does
  not crash writes nothing exactly when no file was embedded, printing the diagnostic.
\<close>

lemma ingest_without_stat_failure:
  assumes "scanned tree = tree"
  shows "crashed (ingest root svc tree) = None \<or> crashed (ingest root svc tree) = Some ValueError"
    and "crashed (ingest root svc tree) = None \<Longrightarrow>
         (written (ingest root svc tree) = None) = (embedded svc tree = [])"
    and "embedded svc tree = [] \<Longrightarrow>
         crashed (ingest root svc tree) = None \<and> written (ingest root svc tree) = None \<and>
         last (events (ingest root svc tree)) = Print No_files_ingested"
proof -
  obtain c s where cs: "ingest_loop svc tree init_state = (c, s)"
    by (cases "ingest_loop svc tree init_state")
  have c: "c = None"
    using loop_completes [of svc tree init_state] assms cs by simp
  have d: "docs s = map (\<lambda>e. the (embeds svc e)) (embedded svc tree)"
    using loop_docs [of svc tree init_state] cs assms by (simp add: init_state_def)
  show "crashed (ingest root svc tree) = None \<or> crashed (ingest root svc tree) = Some ValueError"
    by (simp add: ingest_def cs c)
  show "(written (ingest root svc tree) = None) = (embedded svc tree = [])"
    if "crashed (ingest root svc tree) = None"
    using that by (auto simp: ingest_def cs c d split: if_splits)
  show "crashed (ingest root svc tree) = None \<and> written (ingest root svc tree) = None \<and>
        last (events (ingest root svc tree)) = Print No_files_ingested"
    if "embedded svc tree = []"
    using that by (simp add: ingest_def cs c d)
qed

subsection \<open>Running ingest twice\<close>






























subsection \<open>The embedding client\<close>

text \<open>
  In the ingest script every failure of the request becomes \<^verbatim>\<open>None\<close>: a timeout or a
  refused connection, a status from 400 to 599, a body that is not JSON or has no
  \<^verbatim>\<open>"embedding"\<close>; the file is then skipped with a message.
\<close>

lemma embed_failure_signal:
  "requests_post (Some 600) (svc t) = Inl e \<Longrightarrow> snd (embed svc t) = None"
  "requests_post (Some 600) (svc t) = Inr (status, b) \<Longrightarrow> raise_for_status status \<Longrightarrow>
     snd (embed svc t) = None"
  "requests_post (Some 600) (svc t) = Inr (status, NotJson) \<Longrightarrow> snd (embed svc t) = None"
  "requests_post (Some 600) (svc t) = Inr (status, Json None) \<Longrightarrow> snd (embed svc t) = None"
  by (simp_all add: embed_def Let_def)

lemma embed_timeout: "svc t = Reply delay status b \<Longrightarrow> 600 < delay \<Longrightarrow> snd (embed svc t) = None"
  by (simp add: embed_def requests_post_def Let_def)

lemma process_file_skips:
  assumes "read_text e = Inr t" and "snd (embed svc (chunk t)) = None"
  shows "docs (process_file svc e s) = docs s \<and> meta (process_file svc e s) = meta s \<and>
         last (trace (process_file svc e s)) = Print (Skipping (path e))"
  using assms by (cases "embed svc (chunk t)") (simp add: process_file_def Let_def)

text \<open>
  In the query script a timeout, a refused connection, a body that is not JSON or has
  no \<^verbatim>\<open>"embedding"\<close> is an exception, and the run ends with it after the one request.
\<close>

lemma ask_embed_failure:
  "requests_post (Some 600) (svc t) = Inl e \<Longrightarrow> ask_embed svc t = Inl e"
  "requests_post (Some 600) (svc t) = Inr (status, NotJson) \<Longrightarrow> ask_embed svc t = Inl JSONDecodeError"
  "requests_post (Some 600) (svc t) = Inr (status, Json None) \<Longrightarrow> ask_embed svc t = Inl KeyError"
  by (simp_all add: ask_embed_def)

lemma ask_aborts_without_question_vector:
  "ask_embed (emb_service env) (question argv) = Inl x \<Longrightarrow>
   ask env argv =
     ([Post embeddings_url (EmbPayload model_name (question argv) False) (Some 600)], Some x)"
  by (simp add: ask_def)

text \<open>
  Claim C3, evaluated where it fails. The service answers with status 500 and a body
  that holds an \<^verbatim>\<open>"embedding"\<close>. The ingest script raises on the status and gets
  \<^verbatim>\<open>None\<close>; the query script never looks at the status and gets the vector.
\<close>
theorem ask_embed_ignores_status:
  "snd (embed (\<lambda>p. Reply 0 500 (Json (Some (Numeric [1::nat])))) q) = None
   \<and> ask_embed (\<lambda>p. Reply 0 500 (Json (Some (Numeric [1::nat])))) q = Inr [1]"
  by (simp add: embed_def ask_embed_def requests_post_def raise_for_status_def Let_def)

section \<open>Properties of the query run\<close>

subsection \<open>The question\<close>





subsection \<open>The prefix that is embedded and re-read\<close>








subsection \<open>An example query\<close>

lemma demo_search: "faiss_search demo_dist [[500], [10]] [22] 3 = [1, 0, - 1]"
  by (simp add: faiss_search_def demo_dist_def upt_rec)

lemma demo_question: "question [str ''ask_local.py''] = default_question"
  by (simp add: question_def)

lemma demo_question_vector: "ask_embed demo_service default_question = Inr [22]"
  by (simp add: ask_embed_def demo_service_def requests_post_def default_question_def str_def)

lemma demo_blocks:
  "read_blocks demo_disk [\<lparr>rec_path = ''/r/a.md'', rec_bytes = 500\<rparr>,
                   \<lparr>rec_path = ''/r/b.json'', rec_bytes = 10\<rparr>] [1, 0, - 1] =
     ([ReadText ''/r/b.json'', ReadText ''/r/a.md'', ReadText ''/r/b.json''],
      Inr [replicate 10 98, replicate 500 97, replicate 10 98])"
  by (simp add: py_index_def demo_disk_def chunk_def)

lemma demo_ask:
  "ask (demo_env delay) [str ''ask_local.py''] =
     ([Post embeddings_url (EmbPayload model_name default_question False) (Some 600),
       ReadText ''/r/b.json'', ReadText ''/r/a.md'', ReadText ''/r/b.json'',
       Post chat_url (chat_payload [replicate 10 98, replicate 500 97, replicate 10 98]
                        default_question) None,
       Print (Answer (str ''Harald''))], None)"
  by (simp add: ask_def demo_env_def demo_question demo_question_vector demo_search demo_blocks
      requests_post_def Let_def del: read_blocks.simps)

subsection \<open>Timeouts\<close>

text \<open>
  Every request of an ingest run carries the timeout of 600 seconds; an embedding
  answer that takes longer is a skipped file there, and the end of a query run.
\<close>

lemma ingest_timeouts:
  "list_all (\<lambda>t. t = Some 600) (timeouts (events (ingest root svc tree)))"
proof -
  have "list_all (\<lambda>t. t = Some 600) (timeouts (trace (snd (ingest_loop svc tree init_state))))"
    by (rule loop_timeouts) (simp add: init_state_def)
  then show ?thesis
    by (auto simp: ingest_def split: prod.splits option.splits)
qed

lemma ask_question_timeout:
  "emb_service env (question argv) = Reply delay status b \<Longrightarrow> 600 < delay \<Longrightarrow>
   snd (ask env argv) = Some Timeout"
  by (simp add: ask_def ask_embed_def requests_post_def Let_def)

text \<open>
  Claim C5, evaluated where it fails. The chat service answers after 601 seconds. The
  chat request is sent with no timeout, so nothing is raised: the run waits, prints the
  answer and ends normally.
\<close>
theorem chat_request_has_no_timeout:
  "timeouts (fst (ask (demo_env 601) [str ''ask_local.py''])) = [Some 600, None]
   \<and> snd (ask (demo_env 601) [str ''ask_local.py'']) = None
   \<and> last (fst (ask (demo_env 601) [str ''ask_local.py''])) = Print (Answer (str ''Harald''))"
  by (simp add: demo_ask)

subsection \<open>The pipeline of a query\<close>

lemma faiss_search_length: "length (faiss_search d rows q k) = k"
  by (simp add: faiss_search_def Let_def)

lemma length_three: "length xs = 3 \<Longrightarrow> \<exists>a b c. xs = [a, b, c]"
  by (cases xs; cases "tl xs"; cases "tl (tl xs)") auto

lemma read_blocks_three:
  "read_blocks dsk m [i1, i2, i3] = (evs, Inr bs) \<Longrightarrow>
   \<exists>r1 r2 r3 t1 t2 t3.
     py_index m i1 = Inr r1 \<and> py_index m i2 = Inr r2 \<and> py_index m i3 = Inr r3 \<and>
     dsk (rec_path r1) = Inr t1 \<and> dsk (rec_path r2) = Inr t2 \<and> dsk (rec_path r3) = Inr t3 \<and>
     evs = [ReadText (rec_path r1), ReadText (rec_path r2), ReadText (rec_path r3)] \<and>
     bs = [chunk t1, chunk t2, chunk t3]"
  by (auto split: sum.splits prod.splits)

text \<open>
  Claim C6. A query run that ends normally has embedded the question, asked the index
  for 3 positions, read the file of each of the three records, sent the three blocks
  and the question, each separated by a blank line, as the one user message of the
  chat request, and printed the \<^verbatim>\<open>message.content\<close> of the answer as it came.
\<close>
theorem ask_pipeline:
  assumes "snd (ask env argv) = None"
  shows "\<exists>q_vec i1 i2 i3 r1 r2 r3 t1 t2 t3 delay status c.
     ask_embed (emb_service env) (question argv) = Inr q_vec \<and>
     faiss_search (dist env) (index_rows env) q_vec 3 = [i1, i2, i3] \<and>
     py_index (meta_list env) i1 = Inr r1 \<and> py_index (meta_list env) i2 = Inr r2 \<and>
     py_index (meta_list env) i3 = Inr r3 \<and>
     disk env (rec_path r1) = Inr t1 \<and> disk env (rec_path r2) = Inr t2 \<and>
     disk env (rec_path r3) = Inr t3 \<and>
     chat_service env
       (ChatPayload model_name
          [(''user'', take 800 t1 @ [10, 10] @ take 800 t2 @ [10, 10] @ take 800 t3 @ [10, 10] @
                      question argv)] False) = Reply delay status (Json (Some (Some c))) \<and>
     fst (ask env argv) =
       [Post embeddings_url (EmbPayload model_name (question argv) False) (Some 600),
        ReadText (rec_path r1), ReadText (rec_path r2), ReadText (rec_path r3),
        Post chat_url
          (ChatPayload model_name
             [(''user'', take 800 t1 @ [10, 10] @ take 800 t2 @ [10, 10] @ take 800 t3 @ [10, 10] @
                         question argv)] False) None,
        Print (Answer c)]"
proof -
  let ?q = "question argv"
  obtain q_vec where qv: "ask_embed (emb_service env) ?q = Inr q_vec"
    using assms by (cases "ask_embed (emb_service env) ?q") (simp_all add: ask_def Let_def)
  obtain i1 i2 i3 where ls: "faiss_search (dist env) (index_rows env) q_vec 3 = [i1, i2, i3]"
    using length_three [OF faiss_search_length] by blast
  obtain evs res where rb: "read_blocks (disk env) (meta_list env) [i1, i2, i3] = (evs, res)"
    by (cases "read_blocks (disk env) (meta_list env) [i1, i2, i3]")
  obtain bs where res: "res = Inr bs"
    using assms qv ls rb by (cases res) (simp_all add: ask_def Let_def del: read_blocks.simps)
  from read_blocks_three [OF rb [unfolded res]]
  obtain r1 r2 r3 t1 t2 t3 where
    r: "py_index (meta_list env) i1 = Inr r1" "py_index (meta_list env) i2 = Inr r2"
       "py_index (meta_list env) i3 = Inr r3"
    and t: "disk env (rec_path r1) = Inr t1" "disk env (rec_path r2) = Inr t2"
       "disk env (rec_path r3) = Inr t3"
    and evs: "evs = [ReadText (rec_path r1), ReadText (rec_path r2), ReadText (rec_path r3)]"
    and bs: "bs = [chunk t1, chunk t2, chunk t3]"
    by blast
  let ?pl = "ChatPayload model_name
          [(''user'', take 800 t1 @ [10, 10] @ take 800 t2 @ [10, 10] @ take 800 t3 @ [10, 10] @ ?q)]
          False"
  have pl: "chat_payload bs ?q = ?pl"
    by (simp add: chat_payload_def bs blank_line_def chunk_def)
  have "ask env argv =
      (case requests_post None (chat_service env (chat_payload bs ?q)) of
         Inl x \<Rightarrow> (Post embeddings_url (EmbPayload model_name ?q False) (Some 600) # evs @
                    [Post chat_url (chat_payload bs ?q) None], Some x)
       | Inr (status, b) \<Rightarrow>
           (case b of
              NotJson \<Rightarrow> (Post embeddings_url (EmbPayload model_name ?q False) (Some 600) # evs @
                    [Post chat_url (chat_payload bs ?q) None], Some JSONDecodeError)
            | Json None \<Rightarrow> (Post embeddings_url (EmbPayload model_name ?q False) (Some 600) # evs @
                    [Post chat_url (chat_payload bs ?q) None], Some KeyError)
            | Json (Some None) \<Rightarrow> (Post embeddings_url (EmbPayload model_name ?q False) (Some 600) # evs @
                    [Post chat_url (chat_payload bs ?q) None], Some KeyError)
            | Json (Some (Some c)) \<Rightarrow>
                ((Post embeddings_url (EmbPayload model_name ?q False) (Some 600) # evs @
                    [Post chat_url (chat_payload bs ?q) None]) @ [Print (Answer c)], None)))"
    by (simp add: ask_def Let_def qv ls rb res del: read_blocks.simps)
  note run = this [unfolded pl]
  obtain delay status c where
    chat: "chat_service env ?pl = Reply delay status (Json (Some (Some c)))"
    using assms unfolding run
    by (cases "chat_service env ?pl")
       (auto simp: requests_post_def split: body.splits option.splits)
  have rp: "requests_post None (chat_service env ?pl) = Inr (status, Json (Some (Some c)))"
    unfolding chat by (simp add: requests_post_def)
  have "fst (ask env argv) =
       [Post embeddings_url (EmbPayload model_name ?q False) (Some 600),
        ReadText (rec_path r1), ReadText (rec_path r2), ReadText (rec_path r3),
        Post chat_url ?pl None, Print (Answer c)]"
    unfolding run rp by (simp add: evs)
  with qv ls r t chat show ?thesis by blast
qed

theorem ask_pipeline_witness:
  "snd (ask (demo_env 0) [str ''ask_local.py'']) = None
   \<and> (\<exists>t1 t2 t3 c. fst (ask (demo_env 0) [str ''ask_local.py'']) =
       [Post embeddings_url (EmbPayload model_name default_question False) (Some 600),
        ReadText ''/r/b.json'', ReadText ''/r/a.md'', ReadText ''/r/b.json'',
        Post chat_url
          (ChatPayload model_name
             [(''user'', take 800 t1 @ [10, 10] @ take 800 t2 @ [10, 10] @ take 800 t3 @ [10, 10] @
                         default_question)] False) None,
        Print (Answer c)])"
proof -
  have n: "snd (ask (demo_env 0) [str ''ask_local.py'']) = None"
    by (simp add: demo_ask)
  from ask_pipeline [OF n] obtain r1 r2 r3 :: doc_record and t1 t2 t3 c :: pystr where
    "fst (ask (demo_env 0) [str ''ask_local.py'']) =
       [Post embeddings_url (EmbPayload model_name (question [str ''ask_local.py'']) False) (Some 600),
        ReadText (rec_path r1), ReadText (rec_path r2), ReadText (rec_path r3),
        Post chat_url
          (ChatPayload model_name
             [(''user'', take 800 t1 @ [10, 10] @ take 800 t2 @ [10, 10] @ take 800 t3 @ [10, 10] @
                         question [str ''ask_local.py''])] False) None,
        Print (Answer c)]"
    by blast
  then have "fst (ask (demo_env 0) [str ''ask_local.py'']) =
       [Post embeddings_url (EmbPayload model_name default_question False) (Some 600),
        ReadText ''/r/b.json'', ReadText ''/r/a.md'', ReadText ''/r/b.json'',
        Post chat_url
          (ChatPayload model_name
             [(''user'', take 800 t1 @ [10, 10] @ take 800 t2 @ [10, 10] @ take 800 t3 @ [10, 10] @
                         default_question)] False) None,
        Print (Answer c)]"
    by (simp add: demo_ask demo_question)
  with n show ?thesis by blast
qed

subsection \<open>A corpus of fewer than three documents\<close>

lemma ranked_positions:
  "length (map snd (sort_key fst (zip (map f rows) [0..<length rows]))) = length rows"
  "set (map snd (sort_key fst (zip (map f rows) [0..<length rows]))) = {0..<length rows}"
proof -
  show "length (map snd (sort_key fst (zip (map f rows) [0..<length rows]))) = length rows"
    by simp
  have z: "map snd (zip (map f rows) [0..<length rows]) = [0..<length rows]"
    by (rule map_snd_zip) simp
  have "set (map snd (sort_key fst (zip (map f rows) [0..<length rows]))) =
        snd ` set (zip (map f rows) [0..<length rows])"
    by simp
  also have "\<dots> = set (map snd (zip (map f rows) [0..<length rows]))"
    by (simp only: set_map)
  also have "\<dots> = set [0..<length rows]"
    by (simp only: z)
  also have "\<dots> = {0..<length rows}"
    by simp
  finally show "set (map snd (sort_key fst (zip (map f rows) [0..<length rows]))) = {0..<length rows}" .
qed

lemma faiss_search_short:
  assumes "length rows < k"
  shows "\<exists>hits. faiss_search d rows q k = map int hits @ replicate (k - length rows) (- 1)
           \<and> length hits = length rows \<and> set hits = {0..<length rows}"
proof -
  let ?r = "map snd (sort_key fst (zip (map (d q) rows) [0..<length rows]))"
  have l: "length ?r = length rows" and s: "set ?r = {0..<length rows}"
    by (rule ranked_positions)+
  have "take k ?r = ?r" using assms l by simp
  then have "faiss_search d rows q k = map int ?r @ replicate (k - length rows) (- 1)"
    using l unfolding faiss_search_def Let_def by simp
  with l s show ?thesis by blast
qed

lemma py_index_valid: "h < length m \<Longrightarrow> py_index m (int h) = Inr (m ! h)"
  by (simp add: py_index_def)

lemma py_index_minus_one: "m \<noteq> [] \<Longrightarrow> py_index m (- 1) = Inr (last m)"
  by (cases m rule: rev_cases) (simp_all add: py_index_def nth_append)

lemma read_blocks_readable:
  assumes "list_all (\<lambda>i. \<exists>r. py_index m i = Inr r \<and> \<not> isl (dsk (rec_path r))) ls"
  shows "read_paths (fst (read_blocks dsk m ls)) = map (\<lambda>i. rec_path (projr (py_index m i))) ls
         \<and> \<not> isl (snd (read_blocks dsk m ls))"
  using assms
proof (induction ls)
  case Nil
  show ?case by simp
next
  case (Cons i ls)
  then show ?case
    by (auto split: sum.splits prod.splits)
qed

lemma ask_after_blocks:
  assumes "ask_embed (emb_service env) (question argv) = Inr q_vec"
    and "read_blocks (disk env) (meta_list env)
           (faiss_search (dist env) (index_rows env) q_vec 3) = (evs, Inr bs)"
  shows "read_paths (fst (ask env argv)) = read_paths evs \<and> snd (ask env argv) \<noteq> Some IndexError"
  using assms
  by (auto simp: ask_def Let_def requests_post_def chat_payload_def
      split: sum.splits prod.splits body.splits option.splits server.splits)

lemma ask_index_error:
  assumes "ask_embed (emb_service env) (question argv) = Inr q_vec"
    and "read_blocks (disk env) (meta_list env)
           (faiss_search (dist env) (index_rows env) q_vec 3) = (evs, Inl x)"
  shows "snd (ask env argv) = Some x"
  using assms by (simp add: ask_def Let_def)

lemma short_search_reads:
  assumes "length rows = length m" and "m \<noteq> []" and "length m < 3"
  shows "\<exists>hits. faiss_search d rows q 3 = map int hits @ replicate (3 - length m) (- 1)
           \<and> length hits = length m \<and> set hits = {0..<length m}
           \<and> list_all (\<lambda>i. \<not> isl (py_index m i)) (faiss_search d rows q 3)
           \<and> (list_all (\<lambda>r. \<not> isl (dsk (rec_path r))) m \<longrightarrow>
                read_paths (fst (read_blocks dsk m (faiss_search d rows q 3))) =
                  map (\<lambda>h. rec_path (m ! h)) hits @ replicate (3 - length m) (rec_path (last m))
                \<and> \<not> isl (snd (read_blocks dsk m (faiss_search d rows q 3))))"
proof -
  from faiss_search_short [of rows 3 d q] assms(1,3)
  obtain hits where f: "faiss_search d rows q 3 = map int hits @ replicate (3 - length m) (- 1)"
    and l: "length hits = length m" and s: "set hits = {0..<length m}"
    by auto
  have last: "py_index m (- 1) = Inr (last m)"
    using assms(2) by (rule py_index_minus_one)
  have valid: "py_index m (int h) = Inr (m ! h)" if "h \<in> set hits" for h
    using that s by (simp add: py_index_valid)
  have ok: "list_all (\<lambda>i. \<not> isl (py_index m i)) (faiss_search d rows q 3)"
    unfolding f using valid last by (auto simp: list_all_iff)
  have reads: "read_paths (fst (read_blocks dsk m (faiss_search d rows q 3))) =
                  map (\<lambda>h. rec_path (m ! h)) hits @ replicate (3 - length m) (rec_path (last m))
                \<and> \<not> isl (snd (read_blocks dsk m (faiss_search d rows q 3)))"
    if r: "list_all (\<lambda>r. \<not> isl (dsk (rec_path r))) m"
  proof -
    have inm: "m ! h \<in> set m" if "h \<in> set hits" for h
      using that s by simp
    have "last m \<in> set m" using assms(2) by simp
    then have "list_all (\<lambda>i. \<exists>r. py_index m i = Inr r \<and> \<not> isl (dsk (rec_path r)))
            (faiss_search d rows q 3)"
      unfolding f using valid last r inm by (auto simp: list_all_iff)
    from read_blocks_readable [OF this]
    show ?thesis
      unfolding f using valid last by (simp add: comp_def)
  qed
  from f l s ok reads show ?thesis by auto
qed

text \<open>
  Claim C10 as stated fails: the corpus that the run over the vanishing file wrote has
  one row and no record; the search gives position 0 and twice \<open>-1\<close>, and the first
  look into the empty metadata list ends the query run with \<^verbatim>\<open>IndexError\<close>.
\<close>
theorem short_corpus_counterexample:
  "written (ingest ''/r'' demo_service [vanishing]) =
     Some (index_rows lone_env, meta_list lone_env)
   \<and> faiss_search (dist lone_env) (index_rows lone_env) [22] 3 = [0, - 1, - 1]
   \<and> ask lone_env [str ''ask_local.py''] =
       ([Post embeddings_url (EmbPayload model_name default_question False) (Some 600)],
        Some IndexError)"
proof -
  have "faiss_search (dist lone_env) (index_rows lone_env) [22] 3 = [0, - 1, - 1]"
    by (simp add: lone_env_def demo_env_def faiss_search_def demo_dist_def upt_rec
        numeral_2_eq_2)
  moreover from this have "ask lone_env [str ''ask_local.py''] =
       ([Post embeddings_url (EmbPayload model_name default_question False) (Some 600)],
        Some IndexError)"
    by (simp add: ask_def Let_def demo_question)
       (simp add: lone_env_def demo_env_def demo_question_vector py_index_def)
  ultimately show ?thesis
    by (simp add: vanishing_written) (simp add: lone_env_def)
qed

text \<open>
  Claim C10, as amended. In every query run that embeds its question against a corpus
  with as many rows as records, at least one and fewer than three, the search for 3
  neighbours returns every position once and \<open>-1\<close> in the places left, \<open>-1\<close> selects the
  last record, and when the files of the records can be read the run reads the file of
  each hit and then, once for every place left, the file of the last record, and does
  not end in \<^verbatim>\<open>IndexError\<close>.
\<close>
theorem short_corpus_rereads_last_record:
  assumes "length (index_rows env) = length (meta_list env)"
    and "meta_list env \<noteq> []" and "length (meta_list env) < 3"
    and "ask_embed (emb_service env) (question argv) = Inr q_vec"
  shows "\<exists>hits. faiss_search (dist env) (index_rows env) q_vec 3 =
             map int hits @ replicate (3 - length (meta_list env)) (- 1)
           \<and> length hits = length (meta_list env) \<and> set hits = {0..<length (meta_list env)}
           \<and> 0 < 3 - length (meta_list env)
           \<and> py_index (meta_list env) (- 1) = Inr (last (meta_list env))
           \<and> (list_all (\<lambda>r. \<not> isl (disk env (rec_path r))) (meta_list env) \<longrightarrow>
                read_paths (fst (ask env argv)) =
                  map (\<lambda>h. rec_path (meta_list env ! h)) hits @
                  replicate (3 - length (meta_list env)) (rec_path (last (meta_list env)))
                \<and> snd (ask env argv) \<noteq> Some IndexError)"
proof -
  let ?m = "meta_list env"
  let ?ls = "faiss_search (dist env) (index_rows env) q_vec 3"
  from short_search_reads [OF assms(1-3), of "dist env" q_vec "disk env"]
  obtain hits where f: "?ls = map int hits @ replicate (3 - length ?m) (- 1)"
    and l: "length hits = length ?m" and s: "set hits = {0..<length ?m}"
    and reads: "list_all (\<lambda>r. \<not> isl (disk env (rec_path r))) ?m \<longrightarrow>
                read_paths (fst (read_blocks (disk env) ?m ?ls)) =
                  map (\<lambda>h. rec_path (?m ! h)) hits @ replicate (3 - length ?m) (rec_path (last ?m))
                \<and> \<not> isl (snd (read_blocks (disk env) ?m ?ls))"
    by blast
  have last: "py_index ?m (- 1) = Inr (last ?m)"
    using assms(2) by (rule py_index_minus_one)
  have run: "read_paths (fst (ask env argv)) =
                  map (\<lambda>h. rec_path (?m ! h)) hits @ replicate (3 - length ?m) (rec_path (last ?m))
                \<and> snd (ask env argv) \<noteq> Some IndexError"
    if r: "list_all (\<lambda>r. \<not> isl (disk env (rec_path r))) ?m"
  proof -
    obtain evs res where rb: "read_blocks (disk env) ?m ?ls = (evs, res)"
      by (cases "read_blocks (disk env) ?m ?ls")
    with reads r have p: "read_paths evs =
        map (\<lambda>h. rec_path (?m ! h)) hits @ replicate (3 - length ?m) (rec_path (last ?m))"
      and "\<not> isl res"
      by simp_all
    then obtain bs where "res = Inr bs" by (cases res) simp_all
    with rb ask_after_blocks [OF assms(4), of evs bs] p show ?thesis by simp
  qed
  from f l s assms(3) last run show ?thesis by auto
qed

theorem short_corpus_rereads_last_record_witness:
  "length (index_rows (demo_env 0)) = length (meta_list (demo_env 0))
   \<and> length (meta_list (demo_env 0)) = 2
   \<and> ask_embed (emb_service (demo_env 0)) (question [str ''ask_local.py'']) = Inr [22]
   \<and> py_index (meta_list (demo_env 0)) (- 1) = Inr \<lparr>rec_path = ''/r/b.json'', rec_bytes = 10\<rparr>
   \<and> read_paths (fst (ask (demo_env 0) [str ''ask_local.py''])) =
       [''/r/b.json'', ''/r/a.md'', ''/r/b.json'']
   \<and> snd (ask (demo_env 0) [str ''ask_local.py'']) \<noteq> Some IndexError"
proof -
  let ?env = "demo_env 0 :: (nat, nat) ask_env"
  let ?m = "[\<lparr>rec_path = ''/r/a.md'', rec_bytes = 500\<rparr>, \<lparr>rec_path = ''/r/b.json'', rec_bytes = 10\<rparr>]"
  have m: "meta_list ?env = ?m" and rows: "index_rows ?env = [[500], [10]]"
    and d: "dist ?env = demo_dist" and dk: "disk ?env = demo_disk"
    by (simp_all add: demo_env_def)
  have h1: "length (index_rows ?env) = length (meta_list ?env)"
    and h2: "meta_list ?env \<noteq> []" and h3: "length (meta_list ?env) < 3"
    by (simp_all add: m rows)
  have h4: "ask_embed (emb_service ?env) (question [str ''ask_local.py'']) = Inr [22]"
    by (simp add: demo_env_def demo_question demo_question_vector)
  have r: "list_all (\<lambda>r. \<not> isl (disk ?env (rec_path r))) (meta_list ?env)"
    by (simp add: m dk demo_disk_def)
  from short_corpus_rereads_last_record [OF h1 h2 h3 h4]
  obtain hits where
    f: "faiss_search (dist ?env) (index_rows ?env) [22] 3 =
          map int hits @ replicate (3 - length (meta_list ?env)) (- 1)"
    and last: "py_index (meta_list ?env) (- 1) = Inr (last (meta_list ?env))"
    and reads: "list_all (\<lambda>r. \<not> isl (disk ?env (rec_path r))) (meta_list ?env) \<longrightarrow>
        read_paths (fst (ask ?env [str ''ask_local.py''])) =
          map (\<lambda>h. rec_path (meta_list ?env ! h)) hits @
          replicate (3 - length (meta_list ?env)) (rec_path (last (meta_list ?env)))
        \<and> snd (ask ?env [str ''ask_local.py'']) \<noteq> Some IndexError"
    by blast
  from f have "map int hits = [1, 0]"
    by (simp add: m rows d demo_search)
  then have h: "hits = [1, 0]"
    by (auto simp: map_eq_Cons_conv)
  from reads r have "read_paths (fst (ask ?env [str ''ask_local.py''])) =
          map (\<lambda>h. rec_path (meta_list ?env ! h)) hits @
          replicate (3 - length (meta_list ?env)) (rec_path (last (meta_list ?env)))"
    and ok: "snd (ask ?env [str ''ask_local.py'']) \<noteq> Some IndexError"
    by blast+
  then have "read_paths (fst (ask ?env [str ''ask_local.py''])) =
       [''/r/b.json'', ''/r/a.md'', ''/r/b.json'']"
    unfolding h by (simp add: m)
  moreover have "py_index (meta_list ?env) (- 1) = Inr \<lparr>rec_path = ''/r/b.json'', rec_bytes = 10\<rparr>"
    using last by (simp add: m)
  moreover have "length (meta_list ?env) = 2" by (simp add: m)
  ultimately show ?thesis using h1 h4 ok by blast
qed

end
